theory Spec2Isabelle
  imports Complex_Main "HOL-Library.Sublist"
begin

section \<open>Python values\<close>

text \<open>
  A Python \<open>str\<close> is a sequence of Unicode code points; \<open>len\<close> counts code points and
  \<open>pw[i]\<close> is the one-character string at index \<open>i\<close>. A password is therefore a list of
  code points (natural numbers), not a list of bytes.
\<close>

type_synonym codepoint = nat
type_synonym pystr = "codepoint list"

text \<open>An ASCII literal of the source, as code points.\<close>

definition str :: "string \<Rightarrow> pystr" where
  "str s = map of_char s"

text \<open>The exceptions the operations used by the scorer can raise.\<close>

datatype py_error = IndexError | ZeroDivisionError | ValueError

text \<open>\<open>xs[i]\<close>: a negative index counts from the end; out of range raises.\<close>

definition py_getitem :: "'a list \<Rightarrow> int \<Rightarrow> py_error + 'a" where
  "py_getitem xs i =
     (if 0 \<le> i \<and> i < int (length xs) then Inr (xs ! nat i)
      else if i < 0 \<and> - int (length xs) \<le> i then Inr (xs ! nat (int (length xs) + i))
      else Inl IndexError)"

text \<open>\<open>a / b\<close> on ints (true division); the quotient is taken as a real number.\<close>

definition py_truediv :: "int \<Rightarrow> int \<Rightarrow> py_error + real" where
  "py_truediv a b = (if b = 0 then Inl ZeroDivisionError else Inr (real_of_int a / real_of_int b))"

text \<open>\<open>math.log2(x)\<close> on an int: a domain error unless \<open>x\<close> is positive.\<close>

definition py_log2 :: "int \<Rightarrow> py_error + real" where
  "py_log2 x = (if x \<le> 0 then Inl ValueError else Inr (log 2 (real_of_int x)))"

text \<open>\<open>s[i:j]\<close> for indices \<open>0 \<le> i\<close>, \<open>0 \<le> j\<close>: the slice is clipped, never an error.\<close>

definition py_slice :: "'a list \<Rightarrow> nat \<Rightarrow> nat \<Rightarrow> 'a list" where
  "py_slice s i j = take (j - i) (drop i s)"

text \<open>\<open>needle in hay\<close> on strings: \<open>needle\<close> occurs as a contiguous substring.\<close>

fun starts_with :: "'a list \<Rightarrow> 'a list \<Rightarrow> bool" where
  "starts_with [] ys = True"
| "starts_with (x # xs) [] = False"
| "starts_with (x # xs) (y # ys) = (x = y \<and> starts_with xs ys)"

fun py_in :: "'a list \<Rightarrow> 'a list \<Rightarrow> bool" where
  "py_in xs [] = (xs = [])"
| "py_in xs (y # ys) = (starts_with xs (y # ys) \<or> py_in xs ys)"

section \<open>The Unicode tables of the Python runtime\<close>

text \<open>
  \<open>str.islower\<close>, \<open>str.isupper\<close>, \<open>str.isdigit\<close>, \<open>str.lower\<close> and the regular
  expression classes \<open>\d\<close> and \<open>\b\<close> consult the runtime's Unicode character database. The
  Basic Latin and Latin-1 Supplement blocks (code points below 256) are written out here;
  what the database says about the code points from 256 on is a parameter of the model.
  \<open>db_lower s i\<close> is the lowercase expansion of the character at index \<open>i\<close> of \<open>s\<close> (one to
  three code points; it may depend on the neighbours, as for the capital sigma).
\<close>

record unicode_db =
  db_lowercase :: "codepoint \<Rightarrow> bool"
  db_uppercase :: "codepoint \<Rightarrow> bool"
  db_digit :: "codepoint \<Rightarrow> bool"
  db_decimal :: "codepoint \<Rightarrow> bool"
  db_alnum :: "codepoint \<Rightarrow> bool"
  db_lower :: "pystr \<Rightarrow> nat \<Rightarrow> pystr"

definition latin1_islower :: "codepoint \<Rightarrow> bool" where
  "latin1_islower c =
     ((97 \<le> c \<and> c \<le> 122) \<or> c = 170 \<or> c = 181 \<or> c = 186 \<or>
      (223 \<le> c \<and> c \<le> 246) \<or> (248 \<le> c \<and> c \<le> 255))"

definition latin1_isupper :: "codepoint \<Rightarrow> bool" where
  "latin1_isupper c =
     ((65 \<le> c \<and> c \<le> 90) \<or> (192 \<le> c \<and> c \<le> 214) \<or> (216 \<le> c \<and> c \<le> 222))"

definition latin1_isdigit :: "codepoint \<Rightarrow> bool" where
  "latin1_isdigit c = ((48 \<le> c \<and> c \<le> 57) \<or> c = 178 \<or> c = 179 \<or> c = 185)"

definition latin1_isdecimal :: "codepoint \<Rightarrow> bool" where
  "latin1_isdecimal c = (48 \<le> c \<and> c \<le> 57)"

definition latin1_isalnum :: "codepoint \<Rightarrow> bool" where
  "latin1_isalnum c =
     ((48 \<le> c \<and> c \<le> 57) \<or> (65 \<le> c \<and> c \<le> 90) \<or> (97 \<le> c \<and> c \<le> 122) \<or>
      c = 170 \<or> c = 178 \<or> c = 179 \<or> c = 181 \<or> c = 185 \<or> c = 186 \<or>
      c = 188 \<or> c = 189 \<or> c = 190 \<or>
      (192 \<le> c \<and> c \<le> 214) \<or> (216 \<le> c \<and> c \<le> 246) \<or> (248 \<le> c \<and> c \<le> 255))"

definition latin1_lower :: "codepoint \<Rightarrow> codepoint" where
  "latin1_lower c = (if latin1_isupper c then c + 32 else c)"

text \<open>\<open>c.islower()\<close>, \<open>c.isupper()\<close>, \<open>c.isdigit()\<close> for a one-character string \<open>c\<close>.\<close>

definition py_islower :: "unicode_db \<Rightarrow> codepoint \<Rightarrow> bool" where
  "py_islower U c = (if c < 256 then latin1_islower c else db_lowercase U c)"

definition py_isupper :: "unicode_db \<Rightarrow> codepoint \<Rightarrow> bool" where
  "py_isupper U c = (if c < 256 then latin1_isupper c else db_uppercase U c)"

definition py_isdigit :: "unicode_db \<Rightarrow> codepoint \<Rightarrow> bool" where
  "py_isdigit U c = (if c < 256 then latin1_isdigit c else db_digit U c)"

text \<open>The classes of \<open>re\<close> on a \<open>str\<close> pattern: \<open>\d\<close> is a decimal digit, \<open>\w\<close> is an
  alphanumeric character or the underscore.\<close>

definition re_digit :: "unicode_db \<Rightarrow> codepoint \<Rightarrow> bool" where
  "re_digit U c = (if c < 256 then latin1_isdecimal c else db_decimal U c)"

definition re_word :: "unicode_db \<Rightarrow> codepoint \<Rightarrow> bool" where
  "re_word U c = (if c < 256 then latin1_isalnum c \<or> c = 95 else db_alnum U c)"

text \<open>\<open>s.lower()\<close>: every character is replaced by its lowercase expansion.\<close>

definition lower_at :: "unicode_db \<Rightarrow> pystr \<Rightarrow> nat \<Rightarrow> pystr" where
  "lower_at U s i = (if s ! i < 256 then [latin1_lower (s ! i)] else db_lower U s i)"

definition py_lower :: "unicode_db \<Rightarrow> pystr \<Rightarrow> pystr" where
  "py_lower U s = concat (map (lower_at U s) [0..<length s])"

text \<open>\<open>s.upper()\<close> on the ASCII letters \<open>a\<close> to \<open>z\<close> and on caseless ASCII.\<close>

definition ascii_upper :: "pystr \<Rightarrow> pystr" where
  "ascii_upper s = map (\<lambda>c. if 97 \<le> c \<and> c \<le> 122 then c - 32 else c) s"

section \<open>The scorer\<close>

text \<open>
  \<open>SYMBOLS = r"!@#$%^&*()_+\-=\[\]{};':\",.<>/?\\|`~"\<close> is a raw string literal: each
  backslash of the literal is a character of the string. It has 37 characters.
\<close>

definition SYMBOLS :: pystr where
  "SYMBOLS = [33, 64, 35, 36, 37, 94, 38, 42, 40, 41, 95, 43, 92, 45, 61, 92,
              91, 92, 93, 123, 125, 59, 39, 58, 92, 34, 44, 46, 60, 62, 47, 63,
              92, 92, 124, 96, 126]"

definition COMMON_PATTERNS :: "pystr list" where
  "COMMON_PATTERNS =
     [str ''password'', str ''qwerty'', str ''abc'', str ''abcd'', str ''abc123'',
      str ''letmein'', str ''admin'', str ''welcome'', str ''iloveyou'', str ''dragon'',
      str ''monkey'', str ''football'', str ''baseball'', str ''123'', str ''1234'',
      str ''12345'', str ''123456'', str ''0000'', str ''1111'', str ''2222'']"

definition score_length :: "pystr \<Rightarrow> int" where
  "score_length pw =
     (if int (length pw) \<ge> 16 then 30
      else if int (length pw) \<ge> 12 then 20
      else if int (length pw) \<ge> 8 then 10
      else max 0 (int (length pw) - 4))"

definition has_lower :: "unicode_db \<Rightarrow> pystr \<Rightarrow> bool" where
  "has_lower U pw = list_ex (py_islower U) pw"

definition has_upper :: "unicode_db \<Rightarrow> pystr \<Rightarrow> bool" where
  "has_upper U pw = list_ex (py_isupper U) pw"

definition has_digit :: "unicode_db \<Rightarrow> pystr \<Rightarrow> bool" where
  "has_digit U pw = list_ex (py_isdigit U) pw"

definition has_symbol :: "pystr \<Rightarrow> bool" where
  "has_symbol pw = list_ex (\<lambda>c. py_in [c] SYMBOLS) pw"

definition kinds :: "unicode_db \<Rightarrow> pystr \<Rightarrow> int" where
  "kinds U pw = of_bool (has_lower U pw) + of_bool (has_upper U pw) +
                of_bool (has_digit U pw) + of_bool (has_symbol pw)"

definition score_variety :: "unicode_db \<Rightarrow> pystr \<Rightarrow> py_error + int" where
  "score_variety U pw = py_getitem [0, 10, 18, 24, 30] (kinds U pw)"

subsection \<open>Repeats\<close>

text \<open>
  The body of \<open>for i in range(1, len(pw))\<close>: the state is \<open>(penalty, streak)\<close>; both
  reads \<open>pw[i]\<close> and \<open>pw[i-1]\<close> are checked.
\<close>

definition repeats_step :: "pystr \<Rightarrow> nat \<Rightarrow> int \<times> int \<Rightarrow> py_error + int \<times> int" where
  "repeats_step pw i st =
     (case st of (penalty, streak) \<Rightarrow>
        (case py_getitem pw (int i) of
           Inl e \<Rightarrow> Inl e
         | Inr a \<Rightarrow>
             (case py_getitem pw (int i - 1) of
                Inl e \<Rightarrow> Inl e
              | Inr b \<Rightarrow>
                  if a = b then Inr (penalty, streak + 1)
                  else Inr (if streak \<ge> 3 then penalty + 2 * (streak - 2) else penalty, 1))))"

fun repeats_loop :: "pystr \<Rightarrow> nat list \<Rightarrow> int \<times> int \<Rightarrow> py_error + int \<times> int" where
  "repeats_loop pw [] st = Inr st"
| "repeats_loop pw (i # rest) st =
     (case repeats_step pw i st of
        Inl e \<Rightarrow> Inl e
      | Inr st' \<Rightarrow> repeats_loop pw rest st')"

text \<open>
  \<open>Counter(pw)\<close>: the characters with their counts, in the order of first occurrence.
  \<open>most_common(1)\<close>: at most one entry, the first one with the highest count.
\<close>

fun counter_add :: "codepoint \<Rightarrow> (codepoint \<times> nat) list \<Rightarrow> (codepoint \<times> nat) list" where
  "counter_add c [] = [(c, 1)]"
| "counter_add c ((d, n) # rest) =
     (if c = d then (d, n + 1) # rest else (d, n) # counter_add c rest)"

definition Counter :: "pystr \<Rightarrow> (codepoint \<times> nat) list" where
  "Counter pw = fold counter_add pw []"

fun first_max :: "codepoint \<times> nat \<Rightarrow> (codepoint \<times> nat) list \<Rightarrow> codepoint \<times> nat" where
  "first_max best [] = best"
| "first_max best (x # xs) = first_max (if snd x > snd best then x else best) xs"

definition most_common1 :: "(codepoint \<times> nat) list \<Rightarrow> (codepoint \<times> nat) list" where
  "most_common1 cs = (case cs of [] \<Rightarrow> [] | x # xs \<Rightarrow> [first_max x xs])"

text \<open>
  The comparison \<open>most / len(pw) > 0.4\<close> is made on the exact quotient: the double
  nearest to a quotient of two ints below \<open>2^50\<close> exceeds the double \<open>0.4\<close> exactly when
  the quotient exceeds two fifths.
\<close>

definition penalty_repeats :: "pystr \<Rightarrow> py_error + int" where
  "penalty_repeats pw =
     (case repeats_loop pw [1..<length pw] (0, 1) of
        Inl e \<Rightarrow> Inl e
      | Inr (penalty0, streak) \<Rightarrow>
          (let penalty = (if streak \<ge> 3 then penalty0 + 2 * (streak - 2) else penalty0) in
           if pw \<noteq> [] then
             (case py_getitem (most_common1 (Counter pw)) 0 of
                Inl e \<Rightarrow> Inl e
              | Inr entry \<Rightarrow>
                  (case py_truediv (int (snd entry)) (int (length pw)) of
                     Inl e \<Rightarrow> Inl e
                   | Inr q \<Rightarrow> Inr (min (if q > 4 / 10 then penalty + 5 else penalty) 20)))
           else Inr (min penalty 20)))"

subsection \<open>Sequences\<close>

definition lowers :: pystr where
  "lowers = str ''abcdefghijklmnopqrstuvwxyz''"

definition uppers :: pystr where
  "uppers = ascii_upper lowers"

definition digits :: pystr where
  "digits = str ''0123456789''"

definition seqs :: "pystr list" where
  "seqs = [lowers, uppers, digits, rev lowers, rev uppers, rev digits]"

text \<open>
  The three nested loops: \<open>s\<close> over \<open>seqs\<close>, \<open>k\<close> over \<open>range(4, 8)\<close>, \<open>i\<close> over
  \<open>range(0, len(s) - k + 1)\<close> (empty when the bound is not positive).
\<close>

definition seq_window_loop :: "pystr \<Rightarrow> pystr \<Rightarrow> nat \<Rightarrow> int \<Rightarrow> int" where
  "seq_window_loop pw_low s k penalty =
     fold (\<lambda>i p. if py_in (py_slice s i (i + k)) pw_low then p + 3 else p)
       [0..<length s + 1 - k] penalty"

definition seq_length_loop :: "pystr \<Rightarrow> pystr \<Rightarrow> int \<Rightarrow> int" where
  "seq_length_loop pw_low s penalty = fold (seq_window_loop pw_low s) [4..<8] penalty"

definition penalty_sequences :: "unicode_db \<Rightarrow> pystr \<Rightarrow> int" where
  "penalty_sequences U pw =
     (let pw_low = py_lower U pw
      in min (fold (seq_length_loop pw_low) seqs 0) 12)"

subsection \<open>Common patterns\<close>

text \<open>
  The two regular expressions use literals, character ranges and sets, \<open>\d\<close>, \<open>\b\<close>,
  an optional part, concatenation and alternation. \<open>re_ends U r s i\<close> lists the
  positions where a match of \<open>r\<close> that starts at position \<open>i\<close> of \<open>s\<close> can end;
  \<open>re.search\<close> finds a match exactly when some start position has an end.
\<close>

datatype regex =
  Lit codepoint
| Range codepoint codepoint
| OneOf "codepoint list"
| Digit
| WordBoundary
| Opt regex
| Seq regex regex
| Alt regex regex

definition at_boundary :: "unicode_db \<Rightarrow> pystr \<Rightarrow> nat \<Rightarrow> bool" where
  "at_boundary U s i =
     ((0 < i \<and> re_word U (s ! (i - 1))) \<noteq> (i < length s \<and> re_word U (s ! i)))"

fun re_ends :: "unicode_db \<Rightarrow> regex \<Rightarrow> pystr \<Rightarrow> nat \<Rightarrow> nat list" where
  "re_ends U (Lit c) s i = (if i < length s \<and> s ! i = c then [i + 1] else [])"
| "re_ends U (Range a b) s i =
     (if i < length s \<and> a \<le> s ! i \<and> s ! i \<le> b then [i + 1] else [])"
| "re_ends U (OneOf cs) s i = (if i < length s \<and> List.member cs (s ! i) then [i + 1] else [])"
| "re_ends U Digit s i = (if i < length s \<and> re_digit U (s ! i) then [i + 1] else [])"
| "re_ends U WordBoundary s i = (if at_boundary U s i then [i] else [])"
| "re_ends U (Opt r) s i = re_ends U r s i @ [i]"
| "re_ends U (Seq r1 r2) s i = concat (map (re_ends U r2 s) (re_ends U r1 s i))"
| "re_ends U (Alt r1 r2) s i = re_ends U r1 s i @ re_ends U r2 s i"

definition re_search :: "unicode_db \<Rightarrow> regex \<Rightarrow> pystr \<Rightarrow> bool" where
  "re_search U r s = list_ex (\<lambda>i. re_ends U r s i \<noteq> []) [0..<length s + 1]"

text \<open>\<open>(19|20)\d{2}\<close>\<close>

definition year_re :: regex where
  "year_re = Seq (Alt (Seq (Lit 49) (Lit 57)) (Seq (Lit 50) (Lit 48))) (Seq Digit Digit)"

text \<open>\<open>\b(0?[1-9]|1[0-2])[-/\.]?(0?[1-9]|[12]\d|3[01])\b\<close>\<close>

definition date_re :: regex where
  "date_re =
     Seq WordBoundary
      (Seq (Alt (Seq (Opt (Lit 48)) (Range 49 57)) (Seq (Lit 49) (Range 48 50)))
        (Seq (Opt (OneOf [45, 47, 46]))
          (Seq (Alt (Seq (Opt (Lit 48)) (Range 49 57))
                 (Alt (Seq (Range 49 50) Digit) (Seq (Lit 51) (Range 48 49))))
            WordBoundary)))"

definition keyboard_rows :: "pystr list" where
  "keyboard_rows =
     [str ''qwerty'', str ''asdf'', str ''zxcv'', str ''1q2w3e'', str ''qaz'', str ''wasd'']"

definition penalty_common_patterns :: "unicode_db \<Rightarrow> pystr \<Rightarrow> int" where
  "penalty_common_patterns U pw =
     (let pw_low = py_lower U pw;
          pen1 = fold (\<lambda>pat pen. if py_in pat pw_low then pen + 6 else pen) COMMON_PATTERNS 0;
          pen2 = fold (\<lambda>row pen. if py_in row pw_low \<or> py_in (rev row) pw_low
                                   then pen + 6 else pen) keyboard_rows pen1;
          pen3 = (if re_search U year_re pw_low then pen2 + 5 else pen2);
          pen4 = (if re_search U date_re pw_low then pen3 + 5 else pen3)
      in min pen4 20)"

subsection \<open>Bonus, entropy, label, tips\<close>

definition bonus_strong_mix :: "unicode_db \<Rightarrow> pystr \<Rightarrow> py_error + int" where
  "bonus_strong_mix U pw =
     (if int (length pw) \<ge> 14 then
        (case score_variety U pw of
           Inl e \<Rightarrow> Inl e
         | Inr v \<Rightarrow> Inr (if v \<ge> 24 then 10 else 0))
      else Inr 0)"

definition entropy_charset :: "unicode_db \<Rightarrow> pystr \<Rightarrow> int" where
  "entropy_charset U pw =
     (let c1 = (if has_lower U pw then 26 else 0);
          c2 = (if has_upper U pw then c1 + 26 else c1);
          c3 = (if has_digit U pw then c2 + 10 else c2)
      in if has_symbol pw then c3 + int (length SYMBOLS) else c3)"

text \<open>
  \<open>round(x, 1)\<close>: the nearest multiple of one tenth, a tie going to the even one. The
  float arithmetic of \<open>estimate_entropy_bits\<close> is taken over the real numbers.
\<close>

definition py_round1 :: "real \<Rightarrow> real" where
  "py_round1 x =
     (let y = x * 10; f = \<lfloor>y\<rfloor>; d = y - of_int f
      in of_int (if d < 1 / 2 then f else if 1 / 2 < d then f + 1
                 else if even f then f else f + 1) / 10)"

definition estimate_entropy_bits :: "unicode_db \<Rightarrow> pystr \<Rightarrow> py_error + real" where
  "estimate_entropy_bits U pw =
     (let charset = entropy_charset U pw
      in if charset = 0 then Inr 0
         else (case py_log2 charset of
                 Inl e \<Rightarrow> Inl e
               | Inr l \<Rightarrow> Inr (py_round1 (real (length pw) * l))))"

text \<open>
  The five labels. The strings of the source are \<open>Very Strong\<close>, \<open>Strong\<close>, \<open>Medium\<close>,
  \<open>Weak\<close> and \<open>Very Weak\<close>, each followed by a space and a pictograph (U+2705 for the
  first two, U+26A0 U+FE0F for the third, U+274C for the last two).
\<close>

datatype label = Very_Strong | Strong | Medium | Weak | Very_Weak

definition label_text :: "label \<Rightarrow> pystr" where
  "label_text l =
     (case l of
        Very_Strong \<Rightarrow> str ''Very Strong '' @ [9989]
      | Strong \<Rightarrow> str ''Strong '' @ [9989]
      | Medium \<Rightarrow> str ''Medium '' @ [9888, 65039]
      | Weak \<Rightarrow> str ''Weak '' @ [10060]
      | Very_Weak \<Rightarrow> str ''Very Weak '' @ [10060])"

definition strength_label :: "int \<Rightarrow> label" where
  "strength_label score =
     (if score \<ge> 85 then Very_Strong
      else if score \<ge> 70 then Strong
      else if score \<ge> 55 then Medium
      else if score \<ge> 35 then Weak
      else Very_Weak)"

text \<open>The nine advisory strings, in the order in which the source can append them.\<close>

datatype tip =
  Tip_Length | Tip_Lowercase | Tip_Uppercase | Tip_Digits | Tip_Symbols
| Tip_Repeats | Tip_Sequences | Tip_Patterns | Tip_Passphrase

definition tips :: "unicode_db \<Rightarrow> pystr \<Rightarrow> py_error + tip list" where
  "tips U pw =
     (let t1 = (if int (length pw) < 12 then [Tip_Length] else []);
          t2 = (if \<not> has_lower U pw then t1 @ [Tip_Lowercase] else t1);
          t3 = (if \<not> has_upper U pw then t2 @ [Tip_Uppercase] else t2);
          t4 = (if \<not> has_digit U pw then t3 @ [Tip_Digits] else t3);
          t5 = (if \<not> has_symbol pw then t4 @ [Tip_Symbols] else t4)
      in case penalty_repeats pw of
           Inl e \<Rightarrow> Inl e
         | Inr p_rep \<Rightarrow>
             (let t6 = (if p_rep > 0 then t5 @ [Tip_Repeats] else t5);
                  t7 = (if penalty_sequences U pw > 0 then t6 @ [Tip_Sequences] else t6);
                  t8 = (if penalty_common_patterns U pw > 0 then t7 @ [Tip_Patterns] else t7)
              in Inr (if length t8 = 0 then t8 @ [Tip_Passphrase] else t8)))"

subsection \<open>The entry point\<close>

record breakdown =
  bd_length :: int
  bd_variety :: int
  bd_bonus :: int
  bd_penalty_repeats :: int
  bd_penalty_sequences :: int
  bd_penalty_patterns :: int

record result =
  res_score :: int
  res_label :: label
  res_entropy_bits :: real
  res_breakdown :: breakdown
  res_tips :: "tip list"

definition score_password :: "unicode_db \<Rightarrow> pystr \<Rightarrow> py_error + result" where
  "score_password U pw =
     (let s_len = score_length pw in
      case score_variety U pw of Inl e \<Rightarrow> Inl e | Inr s_var \<Rightarrow>
      case penalty_repeats pw of Inl e \<Rightarrow> Inl e | Inr p_rep \<Rightarrow>
      (let p_seq = penalty_sequences U pw;
           p_pat = penalty_common_patterns U pw in
       case bonus_strong_mix U pw of Inl e \<Rightarrow> Inl e | Inr bonus \<Rightarrow>
       (let raw = s_len + s_var + bonus - (p_rep + p_seq + p_pat);
            score = max 0 (min 100 raw) in
        case estimate_entropy_bits U pw of Inl e \<Rightarrow> Inl e | Inr ent \<Rightarrow>
        case tips U pw of Inl e \<Rightarrow> Inl e | Inr t \<Rightarrow>
          Inr \<lparr>res_score = score,
               res_label = strength_label score,
               res_entropy_bits = ent,
               res_breakdown =
                 \<lparr>bd_length = s_len, bd_variety = s_var, bd_bonus = bonus,
                  bd_penalty_repeats = p_rep, bd_penalty_sequences = p_seq,
                  bd_penalty_patterns = p_pat\<rparr>,
               res_tips = t\<rparr>)))"

section \<open>Definitions used in the statements\<close>

text \<open>
  A table for concrete instances: beyond Latin-1 no character is cased, a digit or
  alphanumeric, and every character is its own lowercase.
\<close>

definition caseless_db :: unicode_db where
  "caseless_db =
     \<lparr>db_lowercase = (\<lambda>c. False), db_uppercase = (\<lambda>c. False), db_digit = (\<lambda>c. False),
      db_decimal = (\<lambda>c. False), db_alnum = (\<lambda>c. False), db_lower = (\<lambda>s i. [s ! i])\<rparr>"

text \<open>The 32 ASCII punctuation characters, by code point.\<close>

definition ascii_punctuation :: "codepoint \<Rightarrow> bool" where
  "ascii_punctuation c =
     ((33 \<le> c \<and> c \<le> 47) \<or> (58 \<le> c \<and> c \<le> 64) \<or> (91 \<le> c \<and> c \<le> 96) \<or>
      (123 \<le> c \<and> c \<le> 126))"

text \<open>
  The windows of lengths 4 to 7 of one sequence string, and the windows of the ordered
  lowercase alphabet, the ordered digits and their two reversals.
\<close>

definition windows :: "pystr \<Rightarrow> pystr list" where
  "windows s =
     concat (map (\<lambda>k. map (\<lambda>i. py_slice s i (i + k)) [0..<length s + 1 - k]) [4..<8])"

definition sequence_windows :: "pystr list" where
  "sequence_windows = concat (map windows [lowers, digits, rev lowers, rev digits])"

text \<open>
  The variant of \<open>penalty_sequences\<close> that scans only the lowercase alphabet, the digits
  and their two reversals.
\<close>

definition penalty_sequences_no_upper :: "unicode_db \<Rightarrow> pystr \<Rightarrow> int" where
  "penalty_sequences_no_upper U pw =
     (let pw_low = py_lower U pw
      in min (fold (seq_length_loop pw_low) [lowers, digits, rev lowers, rev digits] 0) 12)"

section \<open>Properties\<close>

subsection \<open>Ranges and totality\<close>

lemma fold_add_if:
  "fold (\<lambda>x p. if C x then p + a else p) xs (p::int) = p + a * int (length (filter C xs))"
  by (induction xs arbitrary: p) (simp_all add: algebra_simps)

lemma score_length_range: "0 \<le> score_length pw \<and> score_length pw \<le> 30"
  by (simp add: score_length_def)

lemma kinds_range: "0 \<le> kinds U pw \<and> kinds U pw \<le> 4"
  by (simp add: kinds_def)

lemma variety_table_range:
  "k \<le> 4 \<Longrightarrow> 0 \<le> [0, 10, 18, 24, 30 :: int] ! k \<and> [0, 10, 18, 24, 30 :: int] ! k \<le> 30"
proof -
  assume "k \<le> 4"
  then consider "k = 0" | "k = 1" | "k = 2" | "k = 3" | "k = 4" by linarith
  then show ?thesis by cases simp_all
qed

lemma score_variety_Inr:
  "score_variety U pw = Inr ([0, 10, 18, 24, 30] ! nat (kinds U pw))"
  using kinds_range [of U pw] by (simp add: score_variety_def py_getitem_def Let_def)

lemma score_variety_range:
  "score_variety U pw = Inr v \<Longrightarrow> 0 \<le> v \<and> v \<le> 30"
proof -
  assume "score_variety U pw = Inr v"
  then have v: "v = [0, 10, 18, 24, 30] ! nat (kinds U pw)"
    by (simp add: score_variety_Inr)
  have "nat (kinds U pw) \<le> 4" using kinds_range [of U pw] by linarith
  then show ?thesis unfolding v by (rule variety_table_range)
qed

lemma repeats_step_ok:
  assumes "1 \<le> i" and "i < length pw"
  shows "\<exists>p' s'. repeats_step pw i (p, s) = Inr (p', s') \<and> p \<le> p'"
  using assms by (simp add: repeats_step_def py_getitem_def Let_def)

lemma repeats_loop_ok:
  "list_all (\<lambda>i. 1 \<le> i \<and> i < length pw) js \<Longrightarrow>
   \<exists>p' s'. repeats_loop pw js (p, s) = Inr (p', s') \<and> p \<le> p'"
proof (induction js arbitrary: p s)
  case Nil
  then show ?case by simp
next
  case (Cons j js)
  then have j: "1 \<le> j" "j < length pw" and rest: "list_all (\<lambda>i. 1 \<le> i \<and> i < length pw) js"
    by simp_all
  from repeats_step_ok [OF j] obtain p1 s1
    where step: "repeats_step pw j (p, s) = Inr (p1, s1)" and le1: "p \<le> p1" by blast
  from Cons.IH [OF rest, of p1 s1] obtain p2 s2
    where loop: "repeats_loop pw js (p1, s1) = Inr (p2, s2)" and le2: "p1 \<le> p2" by blast
  show ?case using step loop le1 le2 by simp
qed

lemma range_indices_ok: "list_all (\<lambda>i. 1 \<le> i \<and> i < n) [1..<n]"
  by (simp add: list_all_iff)

lemma fold_counter_add_nonempty: "cs \<noteq> [] \<Longrightarrow> fold counter_add xs cs \<noteq> []"
proof (induction xs arbitrary: cs)
  case Nil
  then show ?case by simp
next
  case (Cons x xs)
  have "counter_add x cs \<noteq> []" by (cases cs) (auto split: if_splits)
  then show ?case using Cons.IH by simp
qed

lemma Counter_nonempty: "pw \<noteq> [] \<Longrightarrow> Counter pw \<noteq> []"
  by (cases pw) (simp_all add: Counter_def fold_counter_add_nonempty)

lemma most_common1_getitem:
  "pw \<noteq> [] \<Longrightarrow> \<exists>e. py_getitem (most_common1 (Counter pw)) 0 = Inr e"
proof -
  assume "pw \<noteq> []"
  then obtain x xs where "Counter pw = x # xs"
    using Counter_nonempty by (cases "Counter pw") auto
  then show ?thesis by (simp add: most_common1_def py_getitem_def)
qed

lemma penalty_repeats_ok:
  "\<exists>v. penalty_repeats pw = Inr v \<and> 0 \<le> v \<and> v \<le> 20"
proof -
  from repeats_loop_ok [OF range_indices_ok, of pw 0 1] obtain p0 s0
    where loop: "repeats_loop pw [1..<length pw] (0, 1) = Inr (p0, s0)" and p0: "0 \<le> p0"
    by blast
  define p where "p = (if s0 \<ge> 3 then p0 + 2 * (s0 - 2) else p0)"
  have p: "0 \<le> p" using p0 by (simp add: p_def)
  show ?thesis
  proof (cases "pw = []")
    case True
    then show ?thesis using loop p by (simp add: penalty_repeats_def p_def Let_def)
  next
    case False
    from most_common1_getitem [OF False] obtain e
      where e: "py_getitem (most_common1 (Counter pw)) 0 = Inr e" by blast
    have len: "int (length pw) \<noteq> 0" using False by simp
    show ?thesis using loop p e len False
      by (simp add: penalty_repeats_def p_def [symmetric] Let_def py_truediv_def)
  qed
qed


lemma seq_window_loop_eq:
  "seq_window_loop pw_low s k p =
     p + 3 * int (length (filter (\<lambda>i. py_in (py_slice s i (i + k)) pw_low) [0..<length s + 1 - k]))"
  by (simp add: seq_window_loop_def fold_add_if)

lemma seq_window_loop_mono: "p \<le> seq_window_loop pw_low s k p"
  by (simp add: seq_window_loop_eq)

lemma fold_mono_int:
  "(\<And>x p. p \<le> f x (p::int)) \<Longrightarrow> p \<le> fold f xs p"
proof (induction xs arbitrary: p)
  case Nil
  then show ?case by simp
next
  case (Cons x xs)
  have "p \<le> f x p" by (rule Cons.prems)
  also have "f x p \<le> fold f xs (f x p)" by (rule Cons.IH) (rule Cons.prems)
  finally show ?case by simp
qed

lemma seq_length_loop_mono: "p \<le> seq_length_loop pw_low s p"
  unfolding seq_length_loop_def by (rule fold_mono_int) (rule seq_window_loop_mono)

lemma penalty_sequences_range: "0 \<le> penalty_sequences U pw \<and> penalty_sequences U pw \<le> 12"
proof -
  have "0 \<le> fold (seq_length_loop (py_lower U pw)) seqs 0"
    by (rule fold_mono_int) (rule seq_length_loop_mono)
  then show ?thesis by (simp add: penalty_sequences_def Let_def)
qed

lemma penalty_common_patterns_range:
  "0 \<le> penalty_common_patterns U pw \<and> penalty_common_patterns U pw \<le> 20"
  by (simp add: penalty_common_patterns_def Let_def fold_add_if)

lemma bonus_strong_mix_ok:
  "\<exists>b. bonus_strong_mix U pw = Inr b \<and> (b = 0 \<or> b = 10)"
  by (simp add: bonus_strong_mix_def score_variety_Inr)

lemma entropy_charset_cases: "entropy_charset U pw = 0 \<or> 10 \<le> entropy_charset U pw"
  by (simp add: entropy_charset_def Let_def SYMBOLS_def)

lemma py_round1_nonneg: "0 \<le> x \<Longrightarrow> 0 \<le> py_round1 x"
proof -
  assume "0 \<le> x"
  then have "0 \<le> \<lfloor>x * 10\<rfloor>" by simp
  then show ?thesis by (simp add: py_round1_def Let_def)
qed

lemma estimate_entropy_bits_ok:
  "\<exists>e. estimate_entropy_bits U pw = Inr e \<and> 0 \<le> e"
proof (cases "entropy_charset U pw = 0")
  case True
  then show ?thesis by (simp add: estimate_entropy_bits_def)
next
  case False
  then have c: "10 \<le> entropy_charset U pw" using entropy_charset_cases [of U pw] by simp
  then have "1 \<le> real_of_int (entropy_charset U pw)" by simp
  then have "0 \<le> log 2 (real_of_int (entropy_charset U pw))" by simp
  then have "0 \<le> real (length pw) * log 2 (real_of_int (entropy_charset U pw))" by simp
  then have "0 \<le> py_round1 (real (length pw) * log 2 (real_of_int (entropy_charset U pw)))"
    by (rule py_round1_nonneg)
  then show ?thesis using False c by (simp add: estimate_entropy_bits_def py_log2_def Let_def)
qed

lemma tips_ok: "\<exists>t. tips U pw = Inr t \<and> t \<noteq> []"
proof -
  from penalty_repeats_ok [of pw] obtain v where "penalty_repeats pw = Inr v" by blast
  then show ?thesis by (simp add: tips_def Let_def)
qed

lemma score_password_unfold:
  assumes "score_variety U pw = Inr s_var" and "penalty_repeats pw = Inr p_rep"
    and "bonus_strong_mix U pw = Inr bonus" and "estimate_entropy_bits U pw = Inr ent"
    and "tips U pw = Inr t"
  shows "score_password U pw =
     Inr \<lparr>res_score = max 0 (min 100 (score_length pw + s_var + bonus -
              (p_rep + penalty_sequences U pw + penalty_common_patterns U pw))),
          res_label = strength_label (max 0 (min 100 (score_length pw + s_var + bonus -
              (p_rep + penalty_sequences U pw + penalty_common_patterns U pw)))),
          res_entropy_bits = ent,
          res_breakdown =
            \<lparr>bd_length = score_length pw, bd_variety = s_var, bd_bonus = bonus,
             bd_penalty_repeats = p_rep, bd_penalty_sequences = penalty_sequences U pw,
             bd_penalty_patterns = penalty_common_patterns U pw\<rparr>,
          res_tips = t\<rparr>"
  using assms by (simp add: score_password_def Let_def)

text \<open>
  Claim C1. For every input string, \<open>score_password\<close> returns a result whose score is
  \<open>max(0, min(100, length + variety + bonus - (penalty_repeats + penalty_sequences +
  penalty_patterns)))\<close> over its own breakdown, and every breakdown field lies in its
  range: length and variety in 0..30, bonus 0 or 10, the repeat and pattern penalties in
  0..20, the sequence penalty in 0..12. The score itself lies in 0..100.
\<close>

theorem score_password_invariant:
  "\<exists>r. score_password U pw = Inr r \<and>
     res_score r = max 0 (min 100 (bd_length (res_breakdown r) + bd_variety (res_breakdown r)
        + bd_bonus (res_breakdown r)
        - (bd_penalty_repeats (res_breakdown r) + bd_penalty_sequences (res_breakdown r)
           + bd_penalty_patterns (res_breakdown r)))) \<and>
     0 \<le> res_score r \<and> res_score r \<le> 100 \<and>
     0 \<le> bd_length (res_breakdown r) \<and> bd_length (res_breakdown r) \<le> 30 \<and>
     0 \<le> bd_variety (res_breakdown r) \<and> bd_variety (res_breakdown r) \<le> 30 \<and>
     (bd_bonus (res_breakdown r) = 0 \<or> bd_bonus (res_breakdown r) = 10) \<and>
     0 \<le> bd_penalty_repeats (res_breakdown r) \<and> bd_penalty_repeats (res_breakdown r) \<le> 20 \<and>
     0 \<le> bd_penalty_sequences (res_breakdown r) \<and> bd_penalty_sequences (res_breakdown r) \<le> 12 \<and>
     0 \<le> bd_penalty_patterns (res_breakdown r) \<and> bd_penalty_patterns (res_breakdown r) \<le> 20"
proof -
  obtain s_var where sv: "score_variety U pw = Inr s_var"
    by (simp add: score_variety_Inr)
  obtain p_rep where pr: "penalty_repeats pw = Inr p_rep" and prr: "0 \<le> p_rep" "p_rep \<le> 20"
    using penalty_repeats_ok [of pw] by blast
  obtain bonus where bo: "bonus_strong_mix U pw = Inr bonus" and bor: "bonus = 0 \<or> bonus = 10"
    using bonus_strong_mix_ok [of U pw] by blast
  obtain ent where en: "estimate_entropy_bits U pw = Inr ent"
    using estimate_entropy_bits_ok [of U pw] by blast
  obtain t where ti: "tips U pw = Inr t"
    using tips_ok [of U pw] by blast
  note eq = score_password_unfold [OF sv pr bo en ti]
  note svr = score_variety_range [OF sv]
  note lr = score_length_range [of pw]
  note sr = penalty_sequences_range [of U pw]
  note cr = penalty_common_patterns_range [of U pw]
  show ?thesis
    unfolding eq using svr lr sr cr prr bor by simp
qed

text \<open>
  Claim C7. \<open>score_password\<close> is total: for every string (the empty one, a run of one
  character, arbitrary code points) and whatever the Unicode tables say, no checked
  operation raises (no index error in the run scan or in \<open>most_common(1)[0]\<close>, no division
  by zero, no domain error of \<open>log2\<close>), and the result has a non-negative entropy and at
  least one tip.
\<close>

theorem score_password_total:
  "\<exists>r. score_password U pw = Inr r \<and> 0 \<le> res_entropy_bits r \<and> res_tips r \<noteq> []"
proof -
  obtain s_var where sv: "score_variety U pw = Inr s_var"
    by (simp add: score_variety_Inr)
  obtain p_rep where pr: "penalty_repeats pw = Inr p_rep"
    using penalty_repeats_ok [of pw] by blast
  obtain bonus where bo: "bonus_strong_mix U pw = Inr bonus"
    using bonus_strong_mix_ok [of U pw] by blast
  obtain ent where en: "estimate_entropy_bits U pw = Inr ent" and ep: "0 \<le> ent"
    using estimate_entropy_bits_ok [of U pw] by blast
  obtain t where ti: "tips U pw = Inr t" and tn: "t \<noteq> []"
    using tips_ok [of U pw] by blast
  show ?thesis
    unfolding score_password_unfold [OF sv pr bo en ti] using ep tn by simp
qed

subsection \<open>Character classes and variety\<close>

lemma starts_with_prefix: "starts_with xs ys = prefix xs ys"
  by (induction xs ys rule: starts_with.induct) simp_all

lemma py_in_sublist: "py_in xs ys = sublist xs ys"
  by (induction ys) (simp_all add: starts_with_prefix sublist_Cons_right)

lemma symbol_iff: "py_in [c] SYMBOLS = ascii_punctuation c"
  unfolding SYMBOLS_def ascii_punctuation_def by simp arith

lemma list_ex_append_mono: "list_ex P xs \<Longrightarrow> list_ex P (xs @ ys)"
  by simp

lemma kinds_append_mono: "kinds U pw \<le> kinds U (pw @ [c])"
  by (simp add: kinds_def has_lower_def has_upper_def has_digit_def has_symbol_def of_bool_def)

lemma variety_table_mono:
  "j \<le> k \<Longrightarrow> k \<le> 4 \<Longrightarrow> [0, 10, 18, 24, 30 :: int] ! j \<le> [0, 10, 18, 24, 30 :: int] ! k"
proof -
  assume jk: "j \<le> k" and "k \<le> 4"
  then consider "k = 0" | "k = 1" | "k = 2" | "k = 3" | "k = 4" by linarith
  then show ?thesis
  proof cases
    case 1 with jk show ?thesis by simp
  next
    case 2 with jk have "j = 0 \<or> j = 1" by linarith
    with 2 show ?thesis by auto
  next
    case 3 with jk have "j = 0 \<or> j = 1 \<or> j = 2" by linarith
    with 3 show ?thesis by auto
  next
    case 4 with jk have "j = 0 \<or> j = 1 \<or> j = 2 \<or> j = 3" by linarith
    with 4 show ?thesis by auto
  next
    case 5 with jk have "j = 0 \<or> j = 1 \<or> j = 2 \<or> j = 3 \<or> j = 4" by linarith
    with 5 show ?thesis by auto
  qed
qed

lemma score_variety_append_mono:
  "\<exists>a b. score_variety U pw = Inr a \<and> score_variety U (pw @ [c]) = Inr b \<and> a \<le> b"
proof -
  have "nat (kinds U pw) \<le> nat (kinds U (pw @ [c]))"
    using kinds_append_mono [of U pw c] by linarith
  moreover have "nat (kinds U (pw @ [c])) \<le> 4"
    using kinds_range [of U "pw @ [c]"] by linarith
  ultimately have "[0, 10, 18, 24, 30 :: int] ! nat (kinds U pw)
      \<le> [0, 10, 18, 24, 30 :: int] ! nat (kinds U (pw @ [c]))"
    by (rule variety_table_mono)
  then show ?thesis by (simp add: score_variety_Inr)
qed

text \<open>
  Claim C8. For every password and every character class missing from it, appending a
  character of that class never decreases the variety score: both calls of
  \<open>score_variety\<close> return, and the second value is at least the first.
\<close>

theorem variety_append_missing_class:
  assumes "(\<not> has_lower U pw \<and> py_islower U c) \<or> (\<not> has_upper U pw \<and> py_isupper U c) \<or>
           (\<not> has_digit U pw \<and> py_isdigit U c) \<or> (\<not> has_symbol pw \<and> py_in [c] SYMBOLS)"
  shows "\<exists>a b. score_variety U pw = Inr a \<and> score_variety U (pw @ [c]) = Inr b \<and> a \<le> b"
  by (rule score_variety_append_mono)

theorem variety_append_missing_class_witness:
  "((\<not> has_lower caseless_db (str ''abc'') \<and> py_islower caseless_db 49) \<or>
    (\<not> has_upper caseless_db (str ''abc'') \<and> py_isupper caseless_db 49) \<or>
    (\<not> has_digit caseless_db (str ''abc'') \<and> py_isdigit caseless_db 49) \<or>
    (\<not> has_symbol (str ''abc'') \<and> py_in [49] SYMBOLS)) \<and>
   score_variety caseless_db (str ''abc'') = Inr 10 \<and>
   score_variety caseless_db (str ''abc'' @ [49]) = Inr 18"
proof -
  have h: "\<not> has_digit caseless_db (str ''abc'') \<and> py_isdigit caseless_db 49"
    by code_simp
  have a: "score_variety caseless_db (str ''abc'') = Inr 10" by code_simp
  have b: "score_variety caseless_db (str ''abc'' @ [49]) = Inr 18" by code_simp
  from h have "(\<not> has_lower caseless_db (str ''abc'') \<and> py_islower caseless_db 49) \<or>
    (\<not> has_upper caseless_db (str ''abc'') \<and> py_isupper caseless_db 49) \<or>
    (\<not> has_digit caseless_db (str ''abc'') \<and> py_isdigit caseless_db 49) \<or>
    (\<not> has_symbol (str ''abc'') \<and> py_in [49] SYMBOLS)" by blast
  from this variety_append_missing_class [OF this] a b show ?thesis by simp
qed

lemma kinds_none:
  assumes "list_all (\<lambda>c. \<not> py_islower U c \<and> \<not> py_isupper U c \<and> \<not> py_isdigit U c
             \<and> \<not> py_in [c] SYMBOLS) pw"
  shows "kinds U pw = 0"
  using assms
  by (auto simp: kinds_def has_lower_def has_upper_def has_digit_def has_symbol_def
        list_all_iff list_ex_iff)

text \<open>
  Claim C3 as stated fails: the one-character string U+00E9 (Latin small letter e with
  acute, a non-ASCII letter outside the four ASCII classes) satisfies \<open>str.islower\<close>, so
  its variety score is 10 and not 0, whatever the tables say beyond Latin-1.
\<close>

theorem variety_nonascii_letter_counterexample:
  "\<forall>U. score_variety U [233] = Inr 10"
  by (simp add: score_variety_def kinds_def has_lower_def has_upper_def has_digit_def
      has_symbol_def py_islower_def py_isupper_def py_isdigit_def latin1_islower_def
      latin1_isupper_def latin1_isdigit_def SYMBOLS_def py_getitem_def)

text \<open>
  Claim C3, amended. The variety scorer classifies a character by \<open>str.islower\<close>,
  \<open>str.isupper\<close>, \<open>str.isdigit\<close> and membership in \<open>SYMBOLS\<close>. On an ASCII character
  these are exactly the letters a to z, the letters A to Z and the digits 0 to 9; the
  symbols are exactly the 32 ASCII punctuation characters; and a string all of whose
  characters are in none of the four classes has variety score 0.
\<close>

theorem variety_classes:
  "(c < 128 \<longrightarrow>
      (py_islower U c \<longleftrightarrow> 97 \<le> c \<and> c \<le> 122) \<and>
      (py_isupper U c \<longleftrightarrow> 65 \<le> c \<and> c \<le> 90) \<and>
      (py_isdigit U c \<longleftrightarrow> 48 \<le> c \<and> c \<le> 57)) \<and>
   (py_in [c] SYMBOLS \<longleftrightarrow> ascii_punctuation c) \<and>
   (list_all (\<lambda>c. \<not> py_islower U c \<and> \<not> py_isupper U c \<and> \<not> py_isdigit U c
        \<and> \<not> py_in [c] SYMBOLS) pw \<longrightarrow> score_variety U pw = Inr 0)"
proof (intro conjI impI)
  assume "c < 128"
  then show "py_islower U c \<longleftrightarrow> 97 \<le> c \<and> c \<le> 122"
    by (auto simp: py_islower_def latin1_islower_def)
next
  assume "c < 128"
  then show "py_isupper U c \<longleftrightarrow> 65 \<le> c \<and> c \<le> 90"
    by (auto simp: py_isupper_def latin1_isupper_def)
next
  assume "c < 128"
  then show "py_isdigit U c \<longleftrightarrow> 48 \<le> c \<and> c \<le> 57"
    by (auto simp: py_isdigit_def latin1_isdigit_def)
next
  show "py_in [c] SYMBOLS \<longleftrightarrow> ascii_punctuation c" by (rule symbol_iff)
next
  assume "list_all (\<lambda>c. \<not> py_islower U c \<and> \<not> py_isupper U c \<and> \<not> py_isdigit U c
        \<and> \<not> py_in [c] SYMBOLS) pw"
  then have "kinds U pw = 0" by (rule kinds_none)
  then show "score_variety U pw = Inr 0" by (simp add: score_variety_Inr)
qed

theorem variety_classes_witness:
  "(97::nat) < 128 \<and> py_islower caseless_db 97 \<and> \<not> py_isupper caseless_db 97 \<and>
   \<not> py_isdigit caseless_db 97 \<and> \<not> py_in [97] SYMBOLS \<and>
   list_all (\<lambda>c. \<not> py_islower caseless_db c \<and> \<not> py_isupper caseless_db c \<and>
       \<not> py_isdigit caseless_db c \<and> \<not> py_in [c] SYMBOLS) [32, 9, 20013] \<and>
   score_variety caseless_db [32, 9, 20013] = Inr 0"
proof -
  have small: "(97::nat) < 128" by simp
  have none: "list_all (\<lambda>c. \<not> py_islower caseless_db c \<and> \<not> py_isupper caseless_db c \<and>
       \<not> py_isdigit caseless_db c \<and> \<not> py_in [c] SYMBOLS) [32, 9, 20013]"
    by (simp add: py_islower_def py_isupper_def py_isdigit_def latin1_islower_def
        latin1_isupper_def latin1_isdigit_def SYMBOLS_def caseless_db_def)
  have punct: "\<not> ascii_punctuation 97" by (simp add: ascii_punctuation_def)
  from variety_classes [of 97 caseless_db "[32, 9, 20013]"] small none punct
  show ?thesis by simp
qed

subsection \<open>Two concrete passwords\<close>

lemma empty_parts:
  "score_variety U (str '''') = Inr 0"
  "penalty_repeats (str '''') = Inr 0"
  "bonus_strong_mix U (str '''') = Inr 0"
  "penalty_sequences U (str '''') = 0"
  "penalty_common_patterns U (str '''') = 0"
  "score_length (str '''') = 0"
  "tips U (str '''') = Inr [Tip_Length, Tip_Lowercase, Tip_Uppercase, Tip_Digits, Tip_Symbols]"
  by code_simp+

lemma empty_entropy: "estimate_entropy_bits U (str '''') = Inr 0"
  by (simp add: estimate_entropy_bits_def entropy_charset_def has_lower_def has_upper_def
      has_digit_def has_symbol_def str_def)

text \<open>
  Claim C4. On the empty string \<open>score_password\<close> returns length score 0, variety score 0,
  bonus 0, all three penalties 0, entropy 0.0, score 0 and the label of the lowest tier,
  \<open>Very Weak\<close>.
\<close>

theorem score_password_empty:
  "score_password U (str '''') =
     Inr \<lparr>res_score = 0, res_label = Very_Weak, res_entropy_bits = 0,
          res_breakdown =
            \<lparr>bd_length = 0, bd_variety = 0, bd_bonus = 0, bd_penalty_repeats = 0,
             bd_penalty_sequences = 0, bd_penalty_patterns = 0\<rparr>,
          res_tips = [Tip_Length, Tip_Lowercase, Tip_Uppercase, Tip_Digits, Tip_Symbols]\<rparr>"
  unfolding score_password_unfold [OF empty_parts(1) empty_parts(2) empty_parts(3)
      empty_entropy empty_parts(7)]
  by (simp add: empty_parts strength_label_def)

lemma eight_a_parts:
  "score_variety U (str ''aaaaaaaa'') = Inr 10"
  "penalty_repeats (str ''aaaaaaaa'') = Inr 17"
  "bonus_strong_mix U (str ''aaaaaaaa'') = Inr 0"
  "penalty_sequences U (str ''aaaaaaaa'') = 0"
  "penalty_common_patterns U (str ''aaaaaaaa'') = 0"
  "score_length (str ''aaaaaaaa'') = 10"
  "tips U (str ''aaaaaaaa'') =
     Inr [Tip_Length, Tip_Uppercase, Tip_Digits, Tip_Symbols, Tip_Repeats]"
  by code_simp+

lemma eight_a_loop:
  "repeats_loop (str ''aaaaaaaa'') [1..<length (str ''aaaaaaaa'')] (0, 1) = Inr (0, 8)"
  by code_simp

text \<open>
  Claim C5. On \<open>aaaaaaaa\<close> the run scan leaves the loop with no penalty and a streak of
  8, so the whole run penalty \<open>2 * (8 - 2) = 12\<close> is added for the trailing streak; with
  the frequency penalty 5 the repeat penalty is \<open>min(17, 20) = 17\<close>. The length score is
  10, the variety score 10, bonus and the other penalties are 0, the score is 3 and the
  label is that of the lowest tier, \<open>Very Weak\<close>.
\<close>

theorem score_password_eight_a:
  "repeats_loop (str ''aaaaaaaa'') [1..<length (str ''aaaaaaaa'')] (0, 1) = Inr (0, 8) \<and>
   penalty_repeats (str ''aaaaaaaa'') = Inr (min (2 * (8 - 2) + 5) 20) \<and>
   (\<exists>e. score_password U (str ''aaaaaaaa'') =
     Inr \<lparr>res_score = 3, res_label = Very_Weak, res_entropy_bits = e,
          res_breakdown =
            \<lparr>bd_length = 10, bd_variety = 10, bd_bonus = 0, bd_penalty_repeats = 17,
             bd_penalty_sequences = 0, bd_penalty_patterns = 0\<rparr>,
          res_tips = [Tip_Length, Tip_Uppercase, Tip_Digits, Tip_Symbols, Tip_Repeats]\<rparr>)"
proof -
  obtain e where en: "estimate_entropy_bits U (str ''aaaaaaaa'') = Inr e"
    using estimate_entropy_bits_ok [of U "str ''aaaaaaaa''"] by blast
  have "score_password U (str ''aaaaaaaa'') =
     Inr \<lparr>res_score = 3, res_label = Very_Weak, res_entropy_bits = e,
          res_breakdown =
            \<lparr>bd_length = 10, bd_variety = 10, bd_bonus = 0, bd_penalty_repeats = 17,
             bd_penalty_sequences = 0, bd_penalty_patterns = 0\<rparr>,
          res_tips = [Tip_Length, Tip_Uppercase, Tip_Digits, Tip_Symbols, Tip_Repeats]\<rparr>"
    unfolding score_password_unfold [OF eight_a_parts(1) eight_a_parts(2) eight_a_parts(3)
        en eight_a_parts(7)]
    by (simp add: eight_a_parts strength_label_def)
  then show ?thesis using eight_a_loop eight_a_parts(2) by simp
qed

subsection \<open>Entropy\<close>

lemma log2_37_lower: "26 / 5 \<le> log 2 37"
proof -
  have a: "log 2 ((37::real) ^ 5) = 5 * log 2 37" by (subst log_nat_power) simp_all
  have b: "log 2 ((2::real) ^ 26) = 26" by (subst log_nat_power) simp_all
  have "(2::real) ^ 26 \<le> 37 ^ 5" by simp
  then have "log 2 ((2::real) ^ 26) \<le> log 2 (37 ^ 5)" by (subst log_le_cancel_iff) simp_all
  then have "26 \<le> 5 * log 2 37" unfolding a b .
  then show ?thesis by simp
qed

lemma log2_37_upper: "log 2 37 < 21 / 4"
proof -
  have a: "log 2 ((37::real) ^ 4) = 4 * log 2 37" by (subst log_nat_power) simp_all
  have b: "log 2 ((2::real) ^ 21) = 21" by (subst log_nat_power) simp_all
  have "(37::real) ^ 4 < 2 ^ 21" by simp
  then have "log 2 ((37::real) ^ 4) < log 2 (2 ^ 21)" by (subst log_less_cancel_iff) simp_all
  then have "4 * log 2 37 < 21" unfolding a b .
  then show ?thesis by simp
qed

lemma round1_log2_37: "py_round1 (log 2 37) = 26 / 5"
proof -
  have lo: "52 \<le> log 2 37 * 10" using log2_37_lower by simp
  have hi: "log 2 37 * 10 < 52 + 1 / 2" using log2_37_upper by simp
  have fl: "\<lfloor>log 2 37 * 10\<rfloor> = 52" using lo hi by linarith
  show ?thesis using hi by (simp add: py_round1_def Let_def fl)
qed

text \<open>
  Claim C2 fails on the code at the one-character password \<open>!\<close>: the symbol class adds
  \<open>len(SYMBOLS) = 37\<close> to the character-set size, not 32, so the estimate is
  \<open>round(log2(37), 1) = 5.2\<close> where the claim gives \<open>round(log2(32), 1) = 5.0\<close>.
\<close>

theorem entropy_symbol_charset:
  "entropy_charset U (str ''!'') = 37 \<and> estimate_entropy_bits U (str ''!'') = Inr (26 / 5)"
proof -
  have c: "entropy_charset U (str ''!'') = 37" by code_simp
  have l: "length (str ''!'') = 1" by (simp add: str_def)
  show ?thesis using c l round1_log2_37
    by (simp add: estimate_entropy_bits_def py_log2_def Let_def)
qed

subsection \<open>Common patterns\<close>

lemma py_in_trans: "py_in xs ys \<Longrightarrow> py_in ys zs \<Longrightarrow> py_in xs zs"
  unfolding py_in_sublist by (rule sublist_order.order_trans)

lemma filter_middle_le: "length (filter P ys) \<le> length (filter P (xs @ ys @ zs))"
  by simp

lemma count_123456:
  assumes "py_in (str ''123456'') L"
  shows "4 \<le> length (filter (\<lambda>pat. py_in pat L) COMMON_PATTERNS)"
proof -
  have a: "py_in (str ''123'') (str ''123456'')" by code_simp
  have b: "py_in (str ''1234'') (str ''123456'')" by code_simp
  have c: "py_in (str ''12345'') (str ''123456'')" by code_simp
  note hits = py_in_trans [OF a assms] py_in_trans [OF b assms] py_in_trans [OF c assms] assms
  have split: "COMMON_PATTERNS = take 13 COMMON_PATTERNS @
      [str ''123'', str ''1234'', str ''12345'', str ''123456''] @ drop 17 COMMON_PATTERNS"
    by (simp add: COMMON_PATTERNS_def)
  have "length (filter (\<lambda>pat. py_in pat L)
      [str ''123'', str ''1234'', str ''12345'', str ''123456'']) = 4"
    using hits by simp
  then have mid: "4 \<le> length (filter (\<lambda>pat. py_in pat L) (take 13 COMMON_PATTERNS @
      [str ''123'', str ''1234'', str ''12345'', str ''123456''] @ drop 17 COMMON_PATTERNS))"
    using filter_middle_le [of "\<lambda>pat. py_in pat L"
        "[str ''123'', str ''1234'', str ''12345'', str ''123456'']"
        "take 13 COMMON_PATTERNS" "drop 17 COMMON_PATTERNS"]
    by linarith
  show ?thesis by (subst split) (rule mid)
qed

text \<open>
  Claim C10. Whenever the lowercased password contains \<open>123456\<close>, the pattern penalty is
  exactly the cap 20: the list entries \<open>123\<close>, \<open>1234\<close>, \<open>12345\<close> and \<open>123456\<close> are all
  present and contribute 24 before the cap.
\<close>

theorem penalty_common_patterns_123456:
  assumes "py_in (str ''123456'') (py_lower U pw)"
  shows "penalty_common_patterns U pw = 20"
proof -
  have "4 \<le> int (length (filter (\<lambda>pat. py_in pat (py_lower U pw)) COMMON_PATTERNS))"
    using count_123456 [OF assms] by linarith
  then show ?thesis
    by (simp add: penalty_common_patterns_def Let_def fold_add_if)
qed

theorem penalty_common_patterns_123456_witness:
  "py_in (str ''123456'') (py_lower caseless_db (str ''x123456y'')) \<and>
   penalty_common_patterns caseless_db (str ''x123456y'') = 20"
proof -
  have h: "py_in (str ''123456'') (py_lower caseless_db (str ''x123456y''))" by code_simp
  from h penalty_common_patterns_123456 [OF h] show ?thesis by simp
qed

subsection \<open>Sequences\<close>

lemma count_filter_append:
  "int (length (filter P (xs @ ys))) = int (length (filter P xs)) + int (length (filter P ys))"
  by simp

lemma seq_window_loop_count:
  "seq_window_loop L s k p =
     p + 3 * int (length (filter (\<lambda>w. py_in w L)
                    (map (\<lambda>i. py_slice s i (i + k)) [0..<length s + 1 - k])))"
  by (simp add: seq_window_loop_eq filter_map comp_def)

lemma fold_window_loop_count:
  "fold (seq_window_loop L s) ks p =
     p + 3 * int (length (filter (\<lambda>w. py_in w L)
                    (concat (map (\<lambda>k. map (\<lambda>i. py_slice s i (i + k)) [0..<length s + 1 - k]) ks))))"
proof (induction ks arbitrary: p)
  case Nil
  then show ?case by simp
next
  case (Cons k ks)
  have "fold (seq_window_loop L s) (k # ks) p =
      fold (seq_window_loop L s) ks (seq_window_loop L s k p)" by simp
  also have "\<dots> = seq_window_loop L s k p + 3 * int (length (filter (\<lambda>w. py_in w L)
      (concat (map (\<lambda>k. map (\<lambda>i. py_slice s i (i + k)) [0..<length s + 1 - k]) ks))))"
    by (rule Cons.IH)
  also have "\<dots> = p + 3 * int (length (filter (\<lambda>w. py_in w L)
      (concat (map (\<lambda>k. map (\<lambda>i. py_slice s i (i + k)) [0..<length s + 1 - k]) (k # ks)))))"
    unfolding seq_window_loop_count by simp
  finally show ?case .
qed

lemma seq_length_loop_count:
  "seq_length_loop L s p = p + 3 * int (length (filter (\<lambda>w. py_in w L) (windows s)))"
  unfolding seq_length_loop_def windows_def by (rule fold_window_loop_count)

lemma fold_length_loop_count:
  "fold (seq_length_loop L) ss p =
     p + 3 * int (length (filter (\<lambda>w. py_in w L) (concat (map windows ss))))"
proof (induction ss arbitrary: p)
  case Nil
  then show ?case by simp
next
  case (Cons s ss)
  have "fold (seq_length_loop L) (s # ss) p =
      fold (seq_length_loop L) ss (seq_length_loop L s p)" by simp
  also have "\<dots> = seq_length_loop L s p +
      3 * int (length (filter (\<lambda>w. py_in w L) (concat (map windows ss))))"
    by (rule Cons.IH)
  also have "\<dots> = p +
      3 * int (length (filter (\<lambda>w. py_in w L) (concat (map windows (s # ss)))))"
    unfolding seq_length_loop_count by simp
  finally show ?case .
qed

lemma window_nonempty_subset:
  assumes "w \<in> set (windows s)"
  shows "w \<noteq> [] \<and> set w \<subseteq> set s"
proof -
  from assms obtain ws
    where "ws \<in> set (map (\<lambda>k. map (\<lambda>i. py_slice s i (i + k)) [0..<length s + 1 - k]) [4..<8])"
      and wws: "w \<in> set ws"
    unfolding windows_def set_concat by blast
  then obtain k where k: "k \<in> set [4..<8]"
    and ws: "ws = map (\<lambda>i. py_slice s i (i + k)) [0..<length s + 1 - k]"
    unfolding set_map by blast
  from wws obtain i where "i \<in> set [0..<length s + 1 - k]" and w: "w = py_slice s i (i + k)"
    unfolding ws set_map by blast
  then have i: "i < length s + 1 - k" by simp
  from k have k4: "4 \<le> k" by auto
  from i have ik: "i + k \<le> length s" by linarith
  have w': "w = take k (drop i s)" using w by (simp add: py_slice_def)
  have "length w = k" using ik by (simp add: w')
  then have "w \<noteq> []" using k4 by auto
  moreover have "set w \<subseteq> set s"
    unfolding w' using set_take_subset set_drop_subset by fast
  ultimately show ?thesis by simp
qed

lemma py_in_set: "py_in w L \<Longrightarrow> set w \<subseteq> set L"
  unfolding py_in_sublist by (rule set_mono_sublist)

lemma capital_window_absent:
  assumes caps: "list_all (\<lambda>c. 65 \<le> c \<and> c \<le> 90) s"
    and L: "list_all (\<lambda>c. \<not> (65 \<le> c \<and> c \<le> 90)) L"
    and w: "w \<in> set (windows s)"
  shows "\<not> py_in w L"
proof
  assume "py_in w L"
  then have sub: "set w \<subseteq> set L" by (rule py_in_set)
  from window_nonempty_subset [OF w] obtain c where c: "c \<in> set w" and "set w \<subseteq> set s"
    by (cases w) auto
  then have "65 \<le> c \<and> c \<le> 90" using caps by (auto simp: list_all_iff)
  moreover have "\<not> (65 \<le> c \<and> c \<le> 90)" using c sub L by (auto simp: list_all_iff)
  ultimately show False by simp
qed

lemma capital_windows_count:
  assumes "list_all (\<lambda>c. 65 \<le> c \<and> c \<le> 90) s"
    and "list_all (\<lambda>c. \<not> (65 \<le> c \<and> c \<le> 90)) L"
  shows "filter (\<lambda>w. py_in w L) (windows s) = []"
  using capital_window_absent [OF assms] by (simp add: filter_empty_conv)

lemma uppers_capitals:
  "list_all (\<lambda>c. 65 \<le> c \<and> c \<le> 90) uppers"
  "list_all (\<lambda>c. 65 \<le> c \<and> c \<le> 90) (rev uppers)"
  by code_simp+

lemma latin1_lower_no_capital: "\<not> (65 \<le> latin1_lower c \<and> latin1_lower c \<le> 90)"
  by (auto simp: latin1_lower_def latin1_isupper_def)

lemma py_lower_no_capitals:
  assumes "\<And>s i. 256 \<le> s ! i \<Longrightarrow> list_all (\<lambda>c. \<not> (65 \<le> c \<and> c \<le> 90)) (db_lower U s i)"
  shows "list_all (\<lambda>c. \<not> (65 \<le> c \<and> c \<le> 90)) (py_lower U pw)"
proof -
  have "list_all (\<lambda>c. \<not> (65 \<le> c \<and> c \<le> 90)) (lower_at U pw i)" for i
  proof (cases "pw ! i < 256")
    case True
    then show ?thesis using latin1_lower_no_capital [of "pw ! i"] by (simp add: lower_at_def)
  next
    case False
    then have "256 \<le> pw ! i" by simp
    from assms [OF this] show ?thesis using False by (simp add: lower_at_def)
  qed
  then show ?thesis by (simp add: py_lower_def list_all_iff)
qed

lemma penalty_sequences_count:
  assumes "list_all (\<lambda>c. \<not> (65 \<le> c \<and> c \<le> 90)) (py_lower U pw)"
  shows "penalty_sequences U pw =
     min (3 * int (length (filter (\<lambda>w. py_in w (py_lower U pw)) sequence_windows))) 12"
proof -
  have "filter (\<lambda>w. py_in w (py_lower U pw)) (concat (map windows seqs)) =
      filter (\<lambda>w. py_in w (py_lower U pw)) sequence_windows"
    by (simp add: seqs_def sequence_windows_def
        capital_windows_count [OF uppers_capitals(1) assms]
        capital_windows_count [OF uppers_capitals(2) assms])
  then show ?thesis
    unfolding penalty_sequences_def Let_def fold_length_loop_count by simp
qed

lemma penalty_sequences_no_upper_count:
  "penalty_sequences_no_upper U pw =
     min (3 * int (length (filter (\<lambda>w. py_in w (py_lower U pw)) sequence_windows))) 12"
  unfolding penalty_sequences_no_upper_def Let_def fold_length_loop_count sequence_windows_def
  by simp

lemma capital_variants_nothing:
  assumes "list_all (\<lambda>c. \<not> (65 \<le> c \<and> c \<le> 90)) L"
  shows "fold (seq_length_loop L) [uppers, rev uppers] 0 = 0"
  unfolding fold_length_loop_count
  by (simp add: capital_windows_count [OF uppers_capitals(1) assms]
      capital_windows_count [OF uppers_capitals(2) assms])

lemma concat_singletons: "concat (map (\<lambda>i. [f i]) xs) = map f xs"
  by (induction xs) simp_all

lemma py_lower_latin1:
  assumes "list_all (\<lambda>c. c < 256) s"
  shows "py_lower U s = map latin1_lower s"
proof -
  have eq: "map (lower_at U s) [0..<length s] = map (\<lambda>i. [latin1_lower (s ! i)]) [0..<length s]"
    using assms by (auto simp: lower_at_def list_all_length)
  have "py_lower U s = concat (map (\<lambda>i. [latin1_lower (s ! i)]) [0..<length s])"
    unfolding py_lower_def eq ..
  also have "\<dots> = map (\<lambda>i. latin1_lower (s ! i)) [0..<length s]"
    by (rule concat_singletons)
  also have "\<dots> = map latin1_lower (map ((!) s) [0..<length s])" by simp
  also have "\<dots> = map latin1_lower s" by (simp only: map_nth)
  finally show ?thesis .
qed

lemma latin1_lower_idem: "latin1_lower (latin1_lower c) = latin1_lower c"
  by (auto simp: latin1_lower_def latin1_isupper_def)

lemma latin1_lower_small: "c < 256 \<Longrightarrow> latin1_lower c < 256"
  by (auto simp: latin1_lower_def latin1_isupper_def)

lemma py_lower_latin1_idem:
  assumes "list_all (\<lambda>c. c < 256) s"
  shows "py_lower U (py_lower U s) = py_lower U s"
proof -
  have "list_all (\<lambda>c. c < 256) (map latin1_lower s)"
    using assms by (auto simp: list_all_iff latin1_lower_small)
  then show ?thesis
    by (simp add: py_lower_latin1 [OF assms] py_lower_latin1 latin1_lower_idem)
qed

text \<open>
  Claim C6. The sequence penalty is 3 for every window of length 4 to 7 of the ordered
  alphabet, the ordered digits or their reversals that occurs in the lowercased password,
  each window of the scan counted on its own, capped at 12; on \<open>abcdefgh\<close> it is 12.
  The windows are matched against the lowercased password, which makes the test
  case-insensitive. The statement is about a lowercased password without ASCII capital
  letters, as \<open>str.lower\<close> returns it (see \<open>py_lower_no_capitals\<close>).
\<close>

theorem penalty_sequences_windows:
  assumes "list_all (\<lambda>c. \<not> (65 \<le> c \<and> c \<le> 90)) (py_lower U pw)"
  shows "penalty_sequences U pw =
           min (3 * int (length (filter (\<lambda>w. py_in w (py_lower U pw)) sequence_windows))) 12 \<and>
         penalty_sequences U (str ''abcdefgh'') = 12"
proof -
  have "penalty_sequences U (str ''abcdefgh'') = 12" by code_simp
  then show ?thesis using penalty_sequences_count [OF assms] by simp
qed

theorem penalty_sequences_windows_witness:
  "list_all (\<lambda>c. \<not> (65 \<le> c \<and> c \<le> 90)) (py_lower caseless_db (str ''xAbCdEy'')) \<and>
   length (filter (\<lambda>w. py_in w (py_lower caseless_db (str ''xAbCdEy''))) sequence_windows) = 3 \<and>
   penalty_sequences caseless_db (str ''xAbCdEy'') = 9"
proof -
  have h: "list_all (\<lambda>c. \<not> (65 \<le> c \<and> c \<le> 90)) (py_lower caseless_db (str ''xAbCdEy''))"
    by code_simp
  have n: "length (filter (\<lambda>w. py_in w (py_lower caseless_db (str ''xAbCdEy'')))
      sequence_windows) = 3"
    by code_simp
  from penalty_sequences_windows [OF h] h n show ?thesis by simp
qed

text \<open>
  Claim C9. \<open>penalty_sequences(pw) = penalty_sequences(pw.lower())\<close>, the two uppercase
  variants contribute nothing, and the function equals the variant that scans only the
  lowercase alphabet, the digits and their reversals. The two facts about \<open>str.lower\<close>
  this rests on are the hypotheses: lowering leaves no ASCII capital letter, and lowering
  twice is lowering once (both hold in the model for every Latin-1 string, see
  \<open>py_lower_no_capitals\<close> and \<open>py_lower_latin1_idem\<close>).
\<close>

theorem penalty_sequences_case_folded:
  assumes nocap: "list_all (\<lambda>c. \<not> (65 \<le> c \<and> c \<le> 90)) (py_lower U pw)"
    and idem: "py_lower U (py_lower U pw) = py_lower U pw"
  shows "penalty_sequences U pw = penalty_sequences U (py_lower U pw) \<and>
         fold (seq_length_loop (py_lower U pw)) [uppers, rev uppers] 0 = 0 \<and>
         penalty_sequences U pw = penalty_sequences_no_upper U pw"
proof (intro conjI)
  show "penalty_sequences U pw = penalty_sequences U (py_lower U pw)"
    by (simp add: penalty_sequences_def Let_def idem)
  show "fold (seq_length_loop (py_lower U pw)) [uppers, rev uppers] 0 = 0"
    by (rule capital_variants_nothing [OF nocap])
  show "penalty_sequences U pw = penalty_sequences_no_upper U pw"
    by (simp only: penalty_sequences_count [OF nocap] penalty_sequences_no_upper_count)
qed

theorem penalty_sequences_case_folded_witness:
  "list_all (\<lambda>c. \<not> (65 \<le> c \<and> c \<le> 90)) (py_lower caseless_db (str ''Zyxw4321'')) \<and>
   py_lower caseless_db (py_lower caseless_db (str ''Zyxw4321'')) =
     py_lower caseless_db (str ''Zyxw4321'') \<and>
   penalty_sequences caseless_db (str ''Zyxw4321'') = 6 \<and>
   penalty_sequences caseless_db (str ''zyxw4321'') = 6 \<and>
   penalty_sequences_no_upper caseless_db (str ''Zyxw4321'') = 6"
proof -
  have h1: "list_all (\<lambda>c. \<not> (65 \<le> c \<and> c \<le> 90)) (py_lower caseless_db (str ''Zyxw4321''))"
    by code_simp
  have h2: "py_lower caseless_db (py_lower caseless_db (str ''Zyxw4321'')) =
      py_lower caseless_db (str ''Zyxw4321'')"
    by code_simp
  have low: "py_lower caseless_db (str ''Zyxw4321'') = str ''zyxw4321''" by code_simp
  have v: "penalty_sequences caseless_db (str ''Zyxw4321'') = 6" by code_simp
  from penalty_sequences_case_folded [OF h1 h2] h1 h2 v show ?thesis
    by (simp add: low)
qed

end
